theory Spec2Isabelle
  imports Main "HOL-Library.Word" "HOL-Library.AList" "HOL-Library.Sublist"
begin

section \<open>JavaScript values\<close>

text \<open>
  The values that travel over the message channel and sit in the redux state are
  JSON-like. An object is an association list of its own properties, in the order they
  were first written (JavaScript lists integer-like names first; nothing below depends
  on the order); reading a property that is not there gives \<open>JUndefined\<close>. Numbers
  are the integers (nothing below depends on a fraction or on NaN).
\<close>

datatype jsval =
    JUndefined
  | JNull
  | JBool bool
  | JNum int
  | JStr string
  | JArr "jsval list"
  | JObj "(string \<times> jsval) list"

datatype js_error = TypeError | SyntaxError

text \<open>What \<open>if (v)\<close> tests.\<close>

fun truthy :: "jsval \<Rightarrow> bool" where
  "truthy JUndefined = False"
| "truthy JNull = False"
| "truthy (JBool b) = b"
| "truthy (JNum n) = (n \<noteq> 0)"
| "truthy (JStr s) = (s \<noteq> [])"
| "truthy (JArr xs) = True"
| "truthy (JObj fs) = True"

text \<open>
  \<open>v.k\<close> for one of the fixed property names the sources read (\<open>command\<close>,
  \<open>data\<close>, \<open>preset\<close>, \<open>domains\<close>, \<open>serverPaths\<close>, \<open>rootDirectory\<close>, \<open>id\<close>,
  \<open>presets\<close>, \<open>filePath\<close>, \<open>pathname\<close>, \<open>href\<close>): none of them is an index,
  \<open>length\<close> or an inherited property, so only an object can hold one. Reading a
  property of \<open>undefined\<close> or \<open>null\<close> throws.
\<close>

fun get_prop :: "jsval \<Rightarrow> string \<Rightarrow> js_error + jsval" where
  "get_prop JUndefined k = Inl TypeError"
| "get_prop JNull k = Inl TypeError"
| "get_prop (JObj fs) k = Inr (case map_of fs k of None \<Rightarrow> JUndefined | Some v \<Rightarrow> v)"
| "get_prop v k = Inr JUndefined"

section \<open>The correlation bridge (inputStateSlice.js, lines 15-36)\<close>

text \<open>
  One record for every message on the channel; a field the sender did not write is
  \<open>None\<close> or \<open>JUndefined\<close>. The webview sends \<open>{reqId, payload}\<close>, the extension
  answers \<open>{reqId, data}\<close>.
\<close>

record message =
  reqId :: "string option"
  payload :: jsval
  data :: jsval
  err :: jsval

text \<open>
  \<open>crypto.getRandomValues(new Uint32Array(4)).join('-')\<close>: the four random words are an
  input of the model, each printed in decimal.
\<close>

type_synonym uint32x4 = "32 word \<times> 32 word \<times> 32 word \<times> 32 word"

definition digit_char :: "nat \<Rightarrow> char" where
  "digit_char d = ''0123456789'' ! d"

fun string_of_nat :: "nat \<Rightarrow> string" where
  "string_of_nat n =
     (if n < 10 then [digit_char n]
      else string_of_nat (n div 10) @ [digit_char (n mod 10)])"

declare string_of_nat.simps [simp del]

definition make_reqId :: "uint32x4 \<Rightarrow> string" where
  "make_reqId r =
     (case r of (a, b, c, d) \<Rightarrow>
        string_of_nat (unat a) @ ''-'' @ string_of_nat (unat b) @ ''-'' @
        string_of_nat (unat c) @ ''-'' @ string_of_nat (unat d))"

text \<open>
  A promise is the number of its creation. Every call of a promise's \<open>resolve\<close> or
  \<open>reject\<close> is appended to \<open>settled\<close>, so that a promise settled twice would show
  there twice. \<open>posted\<close> is what went through \<open>vscode.postMessage\<close>.
\<close>

datatype settlement = Resolve jsval | Reject jsval

record bridge =
  PENDING_REQUESTS :: "string \<rightharpoonup> nat"
  posted :: "message list"
  promises :: nat
  settled :: "(nat \<times> settlement) list"

definition init_bridge :: bridge where
  "init_bridge = \<lparr>PENDING_REQUESTS = Map.empty, posted = [], promises = 0, settled = []\<rparr>"

definition post :: "message \<Rightarrow> bridge \<Rightarrow> bridge" where
  "post m b = b\<lparr>posted := posted b @ [m]\<rparr>"

definition settle :: "nat \<Rightarrow> settlement \<Rightarrow> bridge \<Rightarrow> bridge" where
  "settle p x b = b\<lparr>settled := settled b @ [(p, x)]\<rparr>"

text \<open>\<open>vscodeFetch(payload)\<close> returns the new promise.\<close>

definition vscodeFetch :: "uint32x4 \<Rightarrow> jsval \<Rightarrow> bridge \<Rightarrow> nat \<times> bridge" where
  "vscodeFetch rnd pl b =
     (let p = promises b;
          b0 = b\<lparr>promises := Suc p\<rparr>;
          rid = make_reqId rnd;
          b1 = post \<lparr>reqId = Some rid, payload = pl, data = JUndefined, err = JUndefined\<rparr> b0;
          b2 = b1\<lparr>PENDING_REQUESTS := (PENDING_REQUESTS b1)(rid \<mapsto> p)\<rparr>
      in (p, b2))"

text \<open>
  The \<open>message\<close> listener; \<open>reqId\<close> is a string, as both sides write it.
  \<open>p.resolve\<close> on a missing entry is a property read of \<open>undefined\<close>: the
  listener throws, after the \<open>delete\<close>; the bridge at that moment comes with the
  error. (For a \<open>reqId\<close> that names an inherited property, such as
  \<open>constructor\<close>, \<open>p\<close> is not \<open>undefined\<close> but \<open>p.resolve\<close> is, and the
  call throws the same error.)
\<close>

definition onMessage :: "message \<Rightarrow> bridge \<Rightarrow> (js_error \<times> bridge) + bridge" where
  "onMessage m b =
     (case reqId m of
        None \<Rightarrow> Inr b
      | Some rid \<Rightarrow>
          if rid = [] then Inr b
          else
            let p = PENDING_REQUESTS b rid;
                b1 = b\<lparr>PENDING_REQUESTS := (PENDING_REQUESTS b)(rid := None)\<rparr>
            in if truthy (data m) then
                 (case p of None \<Rightarrow> Inl (TypeError, b1)
                  | Some q \<Rightarrow> Inr (settle q (Resolve (data m)) b1))
               else
                 (case p of None \<Rightarrow> Inl (TypeError, b1)
                  | Some q \<Rightarrow> Inr (settle q (Reject (err m)) b1)))"

text \<open>
  The event loop: messages are handled one after the other, and a listener that throws
  does not stop the next message from being handled. The errors thrown are collected.
\<close>

fun deliver :: "message list \<Rightarrow> bridge \<Rightarrow> js_error list \<times> bridge" where
  "deliver [] b = ([], b)"
| "deliver (m # ms) b =
     (case onMessage m b of
        Inr b' \<Rightarrow> deliver ms b'
      | Inl (e, b') \<Rightarrow> (case deliver ms b' of (es, b'') \<Rightarrow> (e # es, b'')))"

text \<open>Calls issued one after the other; the promises returned, in order.\<close>

fun issue :: "(uint32x4 \<times> jsval) list \<Rightarrow> bridge \<Rightarrow> nat list \<times> bridge" where
  "issue [] b = ([], b)"
| "issue (c # cs) b =
     (case vscodeFetch (fst c) (snd c) b of
        (p, b') \<Rightarrow> (case issue cs b' of (ps, b'') \<Rightarrow> (p # ps, b'')))"

section \<open>The command router (ReverbPanel.ts, lines 63-146)\<close>

text \<open>
  \<open>commands.executeCommand\<close> belongs to the editor: how the promise it returns
  settles is an input of the model. \<open>currentPanel\<close> says whether
  \<open>ReverbPanel.currentPanel\<close> is defined when the callback runs (\<open>?.send\<close> does
  nothing, and evaluates no argument, when it is not).
\<close>

datatype op_result = Fulfilled jsval | Rejected jsval

record routed =
  executed :: "(string \<times> jsval list) option"
  sent :: "message list"
  thrown :: "js_error option"

definition reply :: "message \<Rightarrow> jsval \<Rightarrow> message" where
  "reply msg d = \<lparr>reqId = reqId msg, payload = JUndefined, data = d, err = JUndefined\<rparr>"

text \<open>
  \<open>executeCommand(name, args).then((e) => currentPanel?.send({reqId, data: f e}))\<close>:
  the promise has a fulfilment callback only.
\<close>

definition then_send ::
  "string \<Rightarrow> jsval list \<Rightarrow> op_result \<Rightarrow> bool \<Rightarrow> message \<Rightarrow> (jsval \<Rightarrow> js_error + jsval) \<Rightarrow> routed"
where
  "then_send name args r currentPanel msg f =
     (case r of
        Rejected x \<Rightarrow> \<lparr>executed = Some (name, args), sent = [], thrown = None\<rparr>
      | Fulfilled e \<Rightarrow>
          if currentPanel then
            (case f e of
               Inl er \<Rightarrow> \<lparr>executed = Some (name, args), sent = [], thrown = Some er\<rparr>
             | Inr d \<Rightarrow> \<lparr>executed = Some (name, args), sent = [reply msg d], thrown = None\<rparr>)
          else \<lparr>executed = Some (name, args), sent = [], thrown = None\<rparr>)"

definition plain_reply :: "string \<Rightarrow> jsval \<Rightarrow> js_error + jsval" where
  "plain_reply c e = Inr (JObj [(''command'', JStr c), (''data'', e)])"

definition savePreset_reply :: "jsval \<Rightarrow> js_error + jsval" where
  "savePreset_reply e =
     (case get_prop e ''data'' of
        Inl er \<Rightarrow> Inl er
      | Inr d \<Rightarrow>
          (case get_prop e ''preset'' of
             Inl er \<Rightarrow> Inl er
           | Inr p \<Rightarrow> Inr (JObj [(''command'', JStr ''savePreset''), (''data'', d), (''preset'', p)])))"

definition onDidReceiveMessage :: "op_result \<Rightarrow> bool \<Rightarrow> message \<Rightarrow> routed" where
  "onDidReceiveMessage r currentPanel msg =
     (case get_prop (payload msg) ''command'' of
        Inl er \<Rightarrow> \<lparr>executed = None, sent = [], thrown = Some er\<rparr>
      | Inr c \<Rightarrow>
          (case get_prop (payload msg) ''data'' of
             Inl er \<Rightarrow> \<lparr>executed = None, sent = [], thrown = Some er\<rparr>
           | Inr d \<Rightarrow>
               if c = JStr ''dataObjects'' then
                 then_send ''extension.dataObjects'' [] r currentPanel msg (plain_reply ''dataObjects'')
               else if c = JStr ''parseServer'' then
                 then_send ''extension.parseServer'' [d] r currentPanel msg (plain_reply ''parseServer'')
               else if c = JStr ''deletePreset'' then
                 then_send ''extension.deletePreset'' [d] r currentPanel msg (plain_reply ''deletePreset'')
               else if c = JStr ''wipeStorageObject'' then
                 then_send ''extension.wipeStorageObject'' [] r currentPanel msg
                   (plain_reply ''wipeStorageObject'')
               else if c = JStr ''savePreset'' then
                 then_send ''extension.savePreset'' [d] r currentPanel msg savePreset_reply
               else if c = JStr ''validatePort'' then
                 then_send ''extension.validatePort'' [d] r currentPanel msg (plain_reply ''validatePort'')
               else if c = JStr ''makeRequest'' then
                 then_send ''extension.verboseRequest'' [d] r currentPanel msg (plain_reply ''makeRequest'')
               else if c = JStr ''openTerminal'' then
                 \<lparr>executed = Some (''extension.openTerminal'', []), sent = [], thrown = None\<rparr>
               else if c = JStr ''openFileInEditor'' then
                 \<lparr>executed = Some (''extension.openFileInEditor'', [d]), sent = [], thrown = None\<rparr>
               else \<lparr>executed = None, sent = [], thrown = None\<rparr>))"

definition correlated :: "string list" where
  "correlated = [''dataObjects'', ''parseServer'', ''deletePreset'', ''wipeStorageObject'',
     ''savePreset'', ''validatePort'', ''makeRequest'']"

section \<open>The request state store (inputStateSlice.js, lines 96-324)\<close>

text \<open>
  The slice's state, as \<open>initialState\<close> shapes it. Header and cookie rows, the body, the
  method and the path parameters come from text inputs and are strings; the url, the
  preset, the master object and the last response are whatever \<open>JSON.parse\<close> or the
  extension's reply gave. The source's \<open>value\<close> field is \<open>val\<close> here.
\<close>

record kv =
  key :: string
  val :: string

record header_state =
  headers :: "kv list"

record cookie_state =
  cookies :: "kv list"

record inputs =
  urlState :: jsval
  presetState :: jsval
  methodState :: string
  headerState :: header_state
  cookieState :: cookie_state
  dataState :: string
  paramState :: "(string \<times> string) list"

record state =
  inputs :: inputs
  masterObject :: jsval
  requestResult :: jsval
  validPort :: jsval
  waiting :: bool
  loading :: bool

definition initialState :: state where
  "initialState =
     \<lparr>inputs =
        \<lparr>urlState = JStr ''default'', presetState = JStr ''default'', methodState = [],
         headerState = \<lparr>headers = []\<rparr>, cookieState = \<lparr>cookies = []\<rparr>, dataState = [],
         paramState = []\<rparr>,
      masterObject = JObj [(''domains'', JObj []), (''serverPaths'', JArr []),
                           (''rootDirectory'', JStr [])],
      requestResult = JObj [], validPort = JBool True, waiting = False, loading = True\<rparr>"

subsection \<open>Writing and deleting properties\<close>

text \<open>
  \<open>v.k = x\<close> in a strict-mode module: an object takes the property, everything else
  that is not an array throws. An array would take it too, but an array with a named
  property is not a value of \<open>jsval\<close>: the model has no result there, which
  \<open>None\<close> says.
\<close>

fun set_prop :: "jsval \<Rightarrow> string \<Rightarrow> jsval \<Rightarrow> (js_error + jsval) option" where
  "set_prop (JObj fs) k x = Some (Inr (JObj (AList.update k x fs)))"
| "set_prop (JArr xs) k x = None"
| "set_prop v k x = Some (Inl TypeError)"




subsection \<open>Reducers\<close>

definition resetInputs :: "state \<Rightarrow> state" where
  "resetInputs s =
     s\<lparr>inputs := (inputs s)
        \<lparr>presetState := JStr ''default'',
         headerState := \<lparr>headers = []\<rparr>,
         cookieState := \<lparr>cookies = []\<rparr>,
         dataState := [],
         paramState := []\<rparr>\<rparr>"

text \<open>
  \<open>JSON.parse\<close> belongs to the runtime and is a parameter: \<open>None\<close> is its
  SyntaxError. The reducer returns the state and what it posted on the channel; a reducer
  that throws leaves the store as it was.
\<close>

definition setUrlState ::
  "(string \<Rightarrow> jsval option) \<Rightarrow> string \<Rightarrow> state \<Rightarrow> js_error + state \<times> message list"
where
  "setUrlState JSON_parse pl s =
     (if pl = ''default'' then Inr (s\<lparr>inputs := (inputs s)\<lparr>urlState := JStr ''default''\<rparr>\<rparr>, [])
      else
        (case JSON_parse pl of
           None \<Rightarrow> Inl SyntaxError
         | Some object \<Rightarrow>
             let newState = resetInputs s;
                 newState = newState\<lparr>inputs := (inputs newState)\<lparr>urlState := object\<rparr>\<rparr>
             in (case get_prop object ''filePath'' of
                   Inl e \<Rightarrow> Inl e
                 | Inr filePath \<Rightarrow>
                     Inr (newState,
                          [\<lparr>reqId = None,
                            payload = JObj [(''command'', JStr ''openFileInEditor''),
                                            (''data'', filePath)],
                            data = JUndefined, err = JUndefined\<rparr>]))))"

text \<open>
  \<open>JSON.parse(JSON.stringify(headers))\<close> copies the rows, which are pairs of strings;
  the loop counts the rows named \<open>Content-Type\<close>.
\<close>

definition setDataState :: "string \<Rightarrow> state \<Rightarrow> state" where
  "setDataState pl s =
     (let s1 = s\<lparr>inputs := (inputs s)\<lparr>dataState := pl\<rparr>\<rparr>;
          hs = headers (headerState (inputs s1));
          n_headers = fold (\<lambda>header n. if key header = ''Content-Type'' then n + 1 else n) hs (0::nat)
      in if length (dataState (inputs s1)) > 0 \<and> n_headers = 0 then
           s1\<lparr>inputs := (inputs s1)
              \<lparr>headerState := \<lparr>headers = \<lparr>key = ''Content-Type'', val = ''application/json''\<rparr> # hs\<rparr>\<rparr>\<rparr>
         else s1)"

definition setLoading :: "bool \<Rightarrow> state \<Rightarrow> state" where
  "setLoading pl s = s\<lparr>loading := pl\<rparr>"

definition setWaiting :: "bool \<Rightarrow> state \<Rightarrow> state" where
  "setWaiting pl s = s\<lparr>waiting := pl\<rparr>"

text \<open>
  The completion reducers take \<open>action.payload\<close>, which is the \<open>data\<close> of the reply:
  \<open>{command, data: result}\<close>.
\<close>

definition getMasterObject_fulfilled :: "jsval \<Rightarrow> state \<Rightarrow> (js_error + state) option" where
  "getMasterObject_fulfilled pl s =
     (case get_prop pl ''data'' of
        Inl e \<Rightarrow> Some (Inl e)
      | Inr d \<Rightarrow>
          (case get_prop d ''domains'' of
             Inl e \<Rightarrow> Some (Inl e)
           | Inr domains \<Rightarrow>
               if domains = JUndefined then
                 (case get_prop d ''serverPaths'' of
                    Inl e \<Rightarrow> Some (Inl e)
                  | Inr sp \<Rightarrow>
                      (case set_prop (masterObject s) ''serverPaths'' sp of
                         None \<Rightarrow> None
                       | Some (Inl e) \<Rightarrow> Some (Inl e)
                       | Some (Inr m1) \<Rightarrow>
                           (case get_prop d ''rootDirectory'' of
                              Inl e \<Rightarrow> Some (Inl e)
                            | Inr rd \<Rightarrow>
                                (case set_prop m1 ''rootDirectory'' rd of
                                   None \<Rightarrow> None
                                 | Some (Inl e) \<Rightarrow> Some (Inl e)
                                 | Some (Inr m2) \<Rightarrow> Some (Inr (s\<lparr>masterObject := m2\<rparr>))))))
               else Some (Inr (s\<lparr>masterObject := d, loading := False\<rparr>))))"




subsection \<open>The makeRequest thunk (lines 96-151)\<close>

text \<open>
  Strings are their UTF-8 bytes, so \<open>encodeURIComponent\<close> keeps the unreserved ASCII
  characters and writes every other byte as \<open>%XX\<close>. Its output has no \<open>$\<close>, so
  \<open>replace\<close> with a string pattern puts it, as it is, in place of the first
  occurrence.
\<close>

definition uri_unreserved :: "char \<Rightarrow> bool" where
  "uri_unreserved c =
     (c \<in> set ''ABCDEFGHIJKLMNOPQRSTUVWXYZabcdefghijklmnopqrstuvwxyz0123456789-_.!~*()''
      \<or> c = CHR 0x27)"

definition hex_digit :: "nat \<Rightarrow> char" where
  "hex_digit d = ''0123456789ABCDEF'' ! d"

definition encodeURIComponent :: "string \<Rightarrow> string" where
  "encodeURIComponent s =
     concat (map (\<lambda>c. if uri_unreserved c then [c]
                       else [CHR ''%'', hex_digit (of_char c div 16), hex_digit (of_char c mod 16)]) s)"

fun replace_first :: "string \<Rightarrow> string \<Rightarrow> string \<Rightarrow> string" where
  "replace_first pat rep [] = (if pat = [] then rep else [])"
| "replace_first pat rep (c # cs) =
     (if prefix pat (c # cs) then rep @ drop (length pat) (c # cs)
      else c # replace_first pat rep cs)"

text \<open>
  The loop over \<open>Object.entries(urlParams)\<close>. \<open>currentUrl\<close> is the url object of
  the state that \<open>getState()\<close> returns, and the toolkit freezes the state of the
  store: in this strict-mode module the assignment to \<open>currentUrl.pathname\<close> throws.
  Its right-hand side is evaluated first; reading \<open>pathname\<close> of \<open>undefined\<close> or
  \<open>null\<close> throws, and so does \<open>replace\<close> on what is not a string.
\<close>

definition frozen_write :: "jsval \<Rightarrow> string \<Rightarrow> jsval \<Rightarrow> js_error + jsval" where
  "frozen_write obj k x = Inl TypeError"

fun substitute :: "(string \<times> string) list \<Rightarrow> jsval \<Rightarrow> js_error + jsval" where
  "substitute [] currentUrl = Inr currentUrl"
| "substitute ((k, v) # kvs) currentUrl =
     (if length v > 0 then
        (case get_prop currentUrl ''pathname'' of
           Inl e \<Rightarrow> Inl e
         | Inr (JStr pathname) \<Rightarrow>
             (case frozen_write currentUrl ''pathname''
                     (JStr (replace_first ('':'' @ k) (encodeURIComponent v) pathname)) of
                Inl e \<Rightarrow> Inl e
              | Inr url' \<Rightarrow> substitute kvs url')
         | Inr other \<Rightarrow> Inl TypeError)
      else substitute kvs currentUrl)"

definition cookiesArray :: "kv list \<Rightarrow> string list" where
  "cookiesArray cs =
     map (\<lambda>el. key el @ '' = '' @ val el)
       (filter (\<lambda>el. if key el \<in> set [[]] \<or> val el \<in> set [[]] then False else True) cs)"

text \<open>
  The callback of \<open>headers.forEach\<close>: \<open>headersObject[el.key] = el.value\<close> unless
  the key or the value is empty; assigning a string to \<open>__proto__\<close> creates no property.
\<close>

definition add_header :: "kv \<Rightarrow> (string \<times> jsval) list \<Rightarrow> (string \<times> jsval) list" where
  "add_header el obj =
     (if key el \<in> set [[]] \<or> val el \<in> set [[]] then obj
      else if key el = ''__proto__'' then obj
      else AList.update (key el) (JStr (val el)) obj)"

definition headersObject :: "kv list \<Rightarrow> (string \<times> jsval) list" where
  "headersObject hs = fold add_header hs []"

text \<open>\<open>{...src}\<close> written after the properties \<open>obj\<close> already has.\<close>

definition spread :: "(string \<times> jsval) list \<Rightarrow> (string \<times> jsval) list \<Rightarrow> (string \<times> jsval) list" where
  "spread src obj = fold (\<lambda>(k, v) acc. AList.update k v acc) src obj"

definition request_headers :: "kv list \<Rightarrow> kv list \<Rightarrow> jsval" where
  "request_headers cs hs =
     (let cookie = cookiesArray cs
      in if length cookie \<noteq> 0
         then JObj (spread (headersObject hs) [(''cookie'', JArr (map JStr cookie))])
         else JObj (spread (headersObject hs) []))"

text \<open>
  What the payload creator did when it returns or reaches its \<open>await\<close>: it returned a
  value without a call, or it called \<open>vscodeFetch\<close> with a payload and will return what
  that promise resolves to, or it threw. The state is the store's at that moment.
\<close>

datatype thunk = Returned jsval state | Awaiting jsval state | Threw js_error state

definition makeRequest :: "state \<Rightarrow> thunk" where
  "makeRequest s =
     (let s1 = setWaiting True s in
      if urlState (inputs s1) = JStr ''default'' then Returned JUndefined (setWaiting False s1)
      else
        let method = methodState (inputs s1);
            jsonData = dataState (inputs s1);
            urlParams = paramState (inputs s1)
        in (case substitute urlParams (urlState (inputs s1)) of
              Inl e \<Rightarrow> Threw e s1
            | Inr currentUrl \<Rightarrow>
                let hdrs = request_headers (cookies (cookieState (inputs s1)))
                             (headers (headerState (inputs s1)))
                in (case get_prop currentUrl ''href'' of
                      Inl e \<Rightarrow> Threw e s1
                    | Inr href \<Rightarrow>
                        Awaiting
                          (JObj [(''command'', JStr ''makeRequest''),
                                 (''data'', JObj [(''headers'', hdrs), (''baseURL'', href),
                                                  (''method'', JStr method),
                                                  (''data'', JStr jsonData)])])
                          s1)))"



subsection \<open>The vscApi thunk (lines 49-52)\<close>



section \<open>Notions and example inputs of the statements\<close>

text \<open>How the listener settles the promise of a reply: the two branches of its \<open>if\<close>.\<close>

definition outcome :: "message \<Rightarrow> settlement" where
  "outcome m = (if truthy (data m) then Resolve (data m) else Reject (err m))"

text \<open>One call in flight, and a reply to it carrying \<open>d\<close> as its \<open>data\<close>.\<close>

definition ex_call :: jsval where
  "ex_call = JObj [(''command'', JStr ''validatePort''), (''data'', JNum 3000)]"

definition ex_bridge :: bridge where
  "ex_bridge = snd (vscodeFetch (1, 2, 3, 4) ex_call init_bridge)"

definition ex_reply :: "jsval \<Rightarrow> message" where
  "ex_reply d = \<lparr>reqId = Some ''1-2-3-4'', payload = JUndefined, data = d, err = JUndefined\<rparr>"

text \<open>
  What holds of the bridge whatever arrives: two entries never hold the same promise, no
  promise was settled twice, and no promise still in the table was settled.
\<close>

definition bridge_inv :: "bridge \<Rightarrow> bool" where
  "bridge_inv b \<longleftrightarrow>
     inj_on (PENDING_REQUESTS b) (dom (PENDING_REQUESTS b)) \<and>
     distinct (map fst (settled b)) \<and>
     (\<forall>rid p. PENDING_REQUESTS b rid = Some p \<longrightarrow> p \<notin> fst ` set (settled b))"

text \<open>Two calls A and B in flight; B is answered first, A second and with an error.\<close>

definition ex_calls :: "(uint32x4 \<times> jsval) list" where
  "ex_calls = [((1, 2, 3, 4), JObj [(''command'', JStr ''dataObjects'')]),
               ((5, 6, 7, 8), ex_call)]"

definition ex_replies :: "message list" where
  "ex_replies =
     [\<lparr>reqId = Some ''5-6-7-8'', payload = JUndefined,
       data = JObj [(''command'', JStr ''validatePort''), (''data'', JBool True)], err = JUndefined\<rparr>,
      \<lparr>reqId = Some ''1-2-3-4'', payload = JUndefined, data = JUndefined, err = JStr ''failed''\<rparr>]"

text \<open>A message for the router, with command \<open>c\<close>.\<close>

definition ex_msg :: "string \<Rightarrow> message" where
  "ex_msg c = \<lparr>reqId = Some ''1-2-3-4'',
               payload = JObj [(''command'', JStr c), (''data'', JStr ''arg'')],
               data = JUndefined, err = JUndefined\<rparr>"

text \<open>
  A selected endpoint with one saved preset, the text that parses to it, and a store in
  which that endpoint is selected, with a header, a cookie, a body and a path parameter
  that has no value yet.
\<close>

definition ex_preset :: jsval where
  "ex_preset = JObj [(''id'', JStr ''p1''), (''name'', JStr ''first'')]"

definition ex_url :: jsval where
  "ex_url = JObj [(''filePath'', JStr ''/srv/app.js''),
                  (''href'', JStr ''http://localhost:3000/users/:id''),
                  (''pathname'', JStr ''/users/:id''),
                  (''presets'', JObj [(''p1'', ex_preset)])]"

definition ex_url_json :: string where
  \<open>ex_url_json = ''{"filePath":"/srv/app.js","href":"http://localhost:3000/users/:id","pathname":"/users/:id","presets":{"p1":{"id":"p1","name":"first"}}}''\<close>

definition ex_parse :: "string \<Rightarrow> jsval option" where
  "ex_parse x = (if x = ex_url_json then Some ex_url else None)"

definition ex_state :: state where
  "ex_state =
     \<lparr>inputs =
        \<lparr>urlState = ex_url, presetState = ex_preset, methodState = ''POST'',
         headerState = \<lparr>headers = [\<lparr>key = ''Accept'', val = ''text/plain''\<rparr>]\<rparr>,
         cookieState = \<lparr>cookies = [\<lparr>key = ''a'', val = ''b''\<rparr>]\<rparr>,
         dataState = ''{}'',
         paramState = [(''id'', [])]\<rparr>,
      masterObject = JObj [(''domains'', JObj []), (''serverPaths'', JArr []),
                           (''rootDirectory'', JStr [])],
      requestResult = JObj [], validPort = JBool True, waiting = False, loading = True\<rparr>"

text \<open>The same store when its one header is named \<open>cookie\<close>.\<close>

definition ex_cookie_state :: state where
  "ex_cookie_state =
     ex_state\<lparr>inputs := (inputs ex_state)
        \<lparr>headerState := \<lparr>headers = [\<lparr>key = ''cookie'', val = ''x''\<rparr>]\<rparr>\<rparr>\<rparr>"

text \<open>The two answers to \<open>dataObjects\<close>: before and after discovery.\<close>

definition ex_partial :: jsval where
  "ex_partial = JObj [(''command'', JStr ''dataObjects''),
     (''data'', JObj [(''serverPaths'', JArr [JStr ''/x'']), (''rootDirectory'', JStr ''/root'')])]"

definition ex_full :: jsval where
  "ex_full = JObj [(''command'', JStr ''dataObjects''),
     (''data'', JObj [(''domains'', JObj []), (''serverPaths'', JArr [JStr ''/x'']),
                      (''rootDirectory'', JStr ''/root'')])]"




text \<open>
  The \<open>cookie\<close> property of the \<open>headers\<close> of the descriptor a thunk passes to the
  bridge: \<open>None\<close> when there is no call, \<open>Some None\<close> when the headers have no such
  property.
\<close>

definition descriptor_cookie :: "thunk \<Rightarrow> jsval option option" where
  "descriptor_cookie th =
     (case th of
        Awaiting call t \<Rightarrow>
          (case get_prop call ''data'' of
             Inr req \<Rightarrow>
               (case get_prop req ''headers'' of
                  Inr (JObj fs) \<Rightarrow> Some (map_of fs ''cookie'')
                | _ \<Rightarrow> None)
           | Inl e \<Rightarrow> None)
      | _ \<Rightarrow> None)"


section \<open>The bridge: lemmas\<close>

lemma make_reqId_nonempty: "make_reqId r \<noteq> []"
  by (cases r) (simp add: make_reqId_def)

lemma onMessage_present:
  assumes "reqId m = Some rid" and "rid \<noteq> []" and "PENDING_REQUESTS b rid = Some p"
  shows "onMessage m b =
           Inr (settle p (if truthy (data m) then Resolve (data m) else Reject (err m))
                  (b\<lparr>PENDING_REQUESTS := (PENDING_REQUESTS b)(rid := None)\<rparr>))"
  using assms by (simp add: onMessage_def)

text \<open>deliver of replies whose ids are pending and distinct\<close>

lemma deliver_pending:
  assumes "distinct (map fst rs)"
    and "\<forall>(rid, m) \<in> set rs. rid \<noteq> [] \<and> reqId m = Some rid \<and> PENDING_REQUESTS b rid \<noteq> None"
  shows "deliver (map snd rs) b =
           ([], b\<lparr>PENDING_REQUESTS := PENDING_REQUESTS b |` (- set (map fst rs)),
                  settled := settled b @
                    map (\<lambda>(rid, m). (the (PENDING_REQUESTS b rid),
                           if truthy (data m) then Resolve (data m) else Reject (err m))) rs\<rparr>)"
  using assms
proof (induction rs arbitrary: b)
  case Nil
  then show ?case by simp
next
  case (Cons r rs)
  obtain rid m where r: "r = (rid, m)" by (cases r)
  from Cons.prems r obtain p where p: "rid \<noteq> []" "reqId m = Some rid" "PENDING_REQUESTS b rid = Some p"
    by auto
  let ?b1 = "settle p (if truthy (data m) then Resolve (data m) else Reject (err m))
                  (b\<lparr>PENDING_REQUESTS := (PENDING_REQUESTS b)(rid := None)\<rparr>)"
  have step: "onMessage m b = Inr ?b1"
    using p by (simp add: onMessage_present)
  have notin: "rid \<notin> set (map fst rs)" and d: "distinct (map fst rs)"
    using Cons.prems(1) r by auto
  have all: "rid' \<noteq> [] \<and> reqId m' = Some rid' \<and> PENDING_REQUESTS b rid' \<noteq> None"
    if "(rid', m') \<in> set rs" for rid' m'
    using Cons.prems(2) that by auto
  have ne: "rid' \<noteq> rid" if "(rid', m') \<in> set rs" for rid' m'
    using notin that by force
  have same: "PENDING_REQUESTS ?b1 rid' = PENDING_REQUESTS b rid'" if "(rid', m') \<in> set rs" for rid' m'
    using ne [OF that] by (simp add: settle_def)
  have pend: "\<forall>(rid', m') \<in> set rs. rid' \<noteq> [] \<and> reqId m' = Some rid' \<and> PENDING_REQUESTS ?b1 rid' \<noteq> None"
    using all same by auto
  have tab: "PENDING_REQUESTS ?b1 |` (- set (map fst rs)) = PENDING_REQUESTS b |` (- set (map fst (r # rs)))"
    by (auto simp: settle_def r restrict_map_def fun_eq_iff)
  have log: "map (\<lambda>(rid, m). (the (PENDING_REQUESTS ?b1 rid),
                           if truthy (data m) then Resolve (data m) else Reject (err m))) rs
           = map (\<lambda>(rid, m). (the (PENDING_REQUESTS b rid),
                           if truthy (data m) then Resolve (data m) else Reject (err m))) rs"
    using same by (intro map_cong) auto
  have "deliver (map snd (r # rs)) b = deliver (map snd rs) ?b1"
    using step by (simp add: r)
  also have "\<dots> = ([], ?b1\<lparr>PENDING_REQUESTS := PENDING_REQUESTS ?b1 |` (- set (map fst rs)),
                  settled := settled ?b1 @
                    map (\<lambda>(rid, m). (the (PENDING_REQUESTS ?b1 rid),
                           if truthy (data m) then Resolve (data m) else Reject (err m))) rs\<rparr>)"
    using Cons.IH [OF d pend] .
  also have "\<dots> = ([], b\<lparr>PENDING_REQUESTS := PENDING_REQUESTS b |` (- set (map fst (r # rs))),
                  settled := settled b @
                    map (\<lambda>(rid, m). (the (PENDING_REQUESTS b rid),
                           if truthy (data m) then Resolve (data m) else Reject (err m))) (r # rs)\<rparr>)"
    unfolding tab log using p by (simp add: settle_def r)
  finally show ?case .
qed


lemma vscodeFetch_fields:
  "fst (vscodeFetch rnd pl b) = promises b"
  "PENDING_REQUESTS (snd (vscodeFetch rnd pl b)) = (PENDING_REQUESTS b)(make_reqId rnd \<mapsto> promises b)"
  "promises (snd (vscodeFetch rnd pl b)) = Suc (promises b)"
  "settled (snd (vscodeFetch rnd pl b)) = settled b"
  by (simp_all add: vscodeFetch_def Let_def post_def)

lemma issue_fields:
  assumes "distinct (map (\<lambda>c. make_reqId (fst c)) calls)"
  shows "fst (issue calls b) = [promises b ..< promises b + length calls]
       \<and> PENDING_REQUESTS (snd (issue calls b)) =
           PENDING_REQUESTS b ++ map_of (zip (map (\<lambda>c. make_reqId (fst c)) calls) [promises b ..< promises b + length calls])
       \<and> promises (snd (issue calls b)) = promises b + length calls
       \<and> settled (snd (issue calls b)) = settled b"
  using assms
proof (induction calls arbitrary: b)
  case Nil
  then show ?case by simp
next
  case (Cons c cs)
  let ?b1 = "snd (vscodeFetch (fst c) (snd c) b)"
  have d: "distinct (map (\<lambda>c. make_reqId (fst c)) cs)" and fresh: "make_reqId (fst c) \<notin> set (map (\<lambda>c. make_reqId (fst c)) cs)"
    using Cons.prems by auto
  note IH = Cons.IH [OF d, of ?b1]
  have iss: "issue (c # cs) b = (promises b # fst (issue cs ?b1), snd (issue cs ?b1))"
    using vscodeFetch_fields(1) [of "fst c" "snd c" b]
    by (cases "vscodeFetch (fst c) (snd c) b"; cases "issue cs (snd (vscodeFetch (fst c) (snd c) b))") simp
  have up: "[promises b ..< promises b + length (c # cs)] = promises b # [Suc (promises b) ..< Suc (promises b) + length cs]"
    by (simp add: upt_rec)
  have nd: "make_reqId (fst c) \<notin> dom (map_of (zip (map (\<lambda>c. make_reqId (fst c)) cs) [Suc (promises b) ..< Suc (promises b) + length cs]))"
    using fresh by (simp add: dom_map_of_zip)
  let ?g = "map_of (zip (map (\<lambda>c. make_reqId (fst c)) cs) [Suc (promises b) ..< Suc (promises b) + length cs])"
  have "(PENDING_REQUESTS b)(make_reqId (fst c) \<mapsto> promises b) ++ ?g
      = (PENDING_REQUESTS b ++ ?g)(make_reqId (fst c) \<mapsto> promises b)"
    using nd by (rule map_add_upd_left)
  also have "\<dots> = PENDING_REQUESTS b ++ ?g(make_reqId (fst c) \<mapsto> promises b)"
    by (rule map_add_upd [symmetric])
  also have "?g(make_reqId (fst c) \<mapsto> promises b)
      = map_of (zip (map (\<lambda>c. make_reqId (fst c)) (c # cs)) [promises b ..< promises b + length (c # cs)])"
    unfolding up by simp
  finally have tab: "(PENDING_REQUESTS b)(make_reqId (fst c) \<mapsto> promises b) ++ ?g
     = PENDING_REQUESTS b ++ map_of (zip (map (\<lambda>c. make_reqId (fst c)) (c # cs)) [promises b ..< promises b + length (c # cs)])" .
  have p1: "promises ?b1 = Suc (promises b)" and s1: "settled ?b1 = settled b"
    and t1: "PENDING_REQUESTS ?b1 = (PENDING_REQUESTS b)(make_reqId (fst c) \<mapsto> promises b)"
    by (simp_all only: vscodeFetch_fields)
  from IH have ih1: "fst (issue cs ?b1) = [Suc (promises b) ..< Suc (promises b) + length cs]"
    and ih2: "PENDING_REQUESTS (snd (issue cs ?b1)) = (PENDING_REQUESTS b)(make_reqId (fst c) \<mapsto> promises b) ++ ?g"
    and ih3: "promises (snd (issue cs ?b1)) = Suc (promises b) + length cs"
    and ih4: "settled (snd (issue cs ?b1)) = settled b"
    unfolding p1 s1 t1 by blast+
  have c1: "fst (issue (c # cs) b) = [promises b ..< promises b + length (c # cs)]"
    unfolding iss fst_conv ih1 up ..
  have c2: "PENDING_REQUESTS (snd (issue (c # cs) b)) =
           PENDING_REQUESTS b ++ map_of (zip (map (\<lambda>c. make_reqId (fst c)) (c # cs)) [promises b ..< promises b + length (c # cs)])"
    unfolding iss snd_conv ih2 tab ..
  have c3: "promises (snd (issue (c # cs) b)) = promises b + length (c # cs)"
    unfolding iss snd_conv ih3 by simp
  have c4: "settled (snd (issue (c # cs) b)) = settled b"
    unfolding iss snd_conv ih4 ..
  show ?case using c1 c2 c3 c4 by blast
qed

lemma issue_entry:
  assumes "distinct (map (\<lambda>c. make_reqId (fst c)) calls)" and "i < length calls"
  shows "PENDING_REQUESTS (snd (issue calls b)) (make_reqId (fst (calls ! i))) = Some (promises b + i)"
proof -
  let ?ids = "map (\<lambda>c. make_reqId (fst c)) calls"
  let ?ps = "[promises b ..< promises b + length calls]"
  have "map_of (zip ?ids ?ps) (?ids ! i) = Some (?ps ! i)"
    using assms by (intro map_of_zip_nth) auto
  then show ?thesis
    using issue_fields [OF assms(1), of b] assms(2) by (simp add: map_add_def)
qed


lemma onMessage_inv:
  assumes "bridge_inv b"
  shows "bridge_inv (case onMessage m b of Inl (e, b') \<Rightarrow> b' | Inr b' \<Rightarrow> b')"
proof (cases "\<exists>rid. reqId m = Some rid \<and> rid \<noteq> []")
  case False
  then show ?thesis using assms by (auto simp: onMessage_def split: option.splits)
next
  case True
  then obtain rid where rid: "reqId m = Some rid" "rid \<noteq> []" by blast
  let ?t = "(PENDING_REQUESTS b)(rid := None)"
  have inj: "inj_on ?t (dom ?t)"
    using assms unfolding bridge_inv_def inj_on_def by (auto split: if_splits)
  show ?thesis
  proof (cases "PENDING_REQUESTS b rid")
    case None
    then have "onMessage m b = Inl (TypeError, b\<lparr>PENDING_REQUESTS := ?t\<rparr>)"
      using rid by (simp add: onMessage_def Let_def)
    moreover have "bridge_inv (b\<lparr>PENDING_REQUESTS := ?t\<rparr>)"
      using assms inj unfolding bridge_inv_def by (auto split: if_splits)
    ultimately show ?thesis by simp
  next
    case (Some p)
    have step: "onMessage m b = Inr (settle p (if truthy (data m) then Resolve (data m) else Reject (err m))
                  (b\<lparr>PENDING_REQUESTS := ?t\<rparr>))"
      using rid Some by (simp add: onMessage_present)
    have fresh: "p \<notin> fst ` set (settled b)"
      using assms Some unfolding bridge_inv_def by blast
    have other: "q \<noteq> p" if "?t r = Some q" for r q
    proof
      assume "q = p"
      with that have "r \<noteq> rid" "PENDING_REQUESTS b r = Some p" by (auto split: if_splits)
      with Some assms show False unfolding bridge_inv_def inj_on_def by (metis domI)
    qed
    have keep: "q \<notin> fst ` set (settled b)" if "?t r = Some q" for r q
      using that assms unfolding bridge_inv_def by (auto split: if_splits)
    have "bridge_inv (settle p (if truthy (data m) then Resolve (data m) else Reject (err m))
                  (b\<lparr>PENDING_REQUESTS := ?t\<rparr>))"
      unfolding bridge_inv_def
    proof (intro conjI allI impI)
      show "inj_on (PENDING_REQUESTS (settle p (if truthy (data m) then Resolve (data m) else Reject (err m))
                  (b\<lparr>PENDING_REQUESTS := ?t\<rparr>))) (dom (PENDING_REQUESTS (settle p (if truthy (data m) then Resolve (data m) else Reject (err m))
                  (b\<lparr>PENDING_REQUESTS := ?t\<rparr>))))"
        using inj by (simp add: settle_def)
      show "distinct (map fst (settled (settle p (if truthy (data m) then Resolve (data m) else Reject (err m))
                  (b\<lparr>PENDING_REQUESTS := ?t\<rparr>))))"
        using assms fresh unfolding bridge_inv_def by (simp add: settle_def)
    next
      fix r q
      assume "PENDING_REQUESTS (settle p (if truthy (data m) then Resolve (data m) else Reject (err m))
                  (b\<lparr>PENDING_REQUESTS := ?t\<rparr>)) r = Some q"
      then have t: "?t r = Some q" by (simp add: settle_def)
      show "q \<notin> fst ` set (settled (settle p (if truthy (data m) then Resolve (data m) else Reject (err m))
                  (b\<lparr>PENDING_REQUESTS := ?t\<rparr>)))"
        using other [OF t] keep [OF t] by (simp add: settle_def)
    qed
    with step show ?thesis by simp
  qed
qed

lemma deliver_inv: "bridge_inv b \<Longrightarrow> bridge_inv (snd (deliver ms b))"
proof (induction ms arbitrary: b)
  case Nil
  then show ?case by simp
next
  case (Cons m ms)
  show ?case
  proof (cases "onMessage m b")
    case (Inl eb)
    obtain e b' where eb: "eb = (e, b')" by (cases eb)
    have "bridge_inv b'" using onMessage_inv [OF Cons.prems, of m] Inl eb by simp
    then have "bridge_inv (snd (deliver ms b'))" by (rule Cons.IH)
    then show ?thesis using Inl eb by (cases "deliver ms b'") simp
  next
    case (Inr b')
    have "bridge_inv b'" using onMessage_inv [OF Cons.prems, of m] Inr by simp
    then have "bridge_inv (snd (deliver ms b'))" by (rule Cons.IH)
    then show ?thesis using Inr by simp
  qed
qed

lemma issue_inv:
  assumes "distinct (map (\<lambda>c. make_reqId (fst c)) calls)"
  shows "bridge_inv (snd (issue calls init_bridge))"
proof -
  let ?ids = "map (\<lambda>c. make_reqId (fst c)) calls"
  let ?b = "snd (issue calls init_bridge)"
  have p0: "promises init_bridge = 0" "settled init_bridge = []" "PENDING_REQUESTS init_bridge = Map.empty"
    by (simp_all add: init_bridge_def)
  have tab: "PENDING_REQUESTS ?b = map_of (zip ?ids [0..<length calls])"
    and log: "settled ?b = []"
    using issue_fields [OF assms, of init_bridge] p0 by simp_all
  have inj: "inj_on (PENDING_REQUESTS ?b) (dom (PENDING_REQUESTS ?b))"
  proof (rule inj_onI)
    fix r r' assume "r \<in> dom (PENDING_REQUESTS ?b)" and "r' \<in> dom (PENDING_REQUESTS ?b)"
      and e: "PENDING_REQUESTS ?b r = PENDING_REQUESTS ?b r'"
    then obtain p where "PENDING_REQUESTS ?b r = Some p" "PENDING_REQUESTS ?b r' = Some p"
      by force
    then have "map_of (zip ?ids [0..<length calls]) r = Some p"
      "map_of (zip ?ids [0..<length calls]) r' = Some p"
      unfolding tab .
    then have "(r, p) \<in> set (zip ?ids [0..<length calls])" "(r', p) \<in> set (zip ?ids [0..<length calls])"
      by (auto dest: map_of_SomeD)
    then show "r = r'"
      by (auto simp: in_set_zip)
  qed
  show ?thesis unfolding bridge_inv_def using inj log by simp
qed

lemma settled_once:
  assumes "distinct (map (\<lambda>c. make_reqId (fst c)) calls)"
  shows "distinct (map fst (settled (snd (deliver ms (snd (issue calls init_bridge))))))"
  using deliver_inv [OF issue_inv [OF assms], of ms] unfolding bridge_inv_def by blast

section \<open>The bridge: correlation of replies\<close>

text \<open>
  Claim C1. Calls are issued from the empty table with pairwise different request ids;
  call \<open>i\<close> returns promise \<open>i\<close> and its table entry holds that promise. Replies
  \<open>ms\<close> then arrive, the \<open>k\<close>-th one bearing the id of call \<open>idx ! k\<close>, in any
  order (\<open>idx\<close> is any list of different call numbers). Then no listener run throws,
  the settlements are exactly: promise \<open>idx ! k\<close> with the outcome of reply \<open>k\<close>, in
  the order of arrival; the answered entries, and only they, are gone from the table.
  And whatever messages arrive after the calls, no promise is settled twice.
\<close>

theorem replies_settle_own_calls:
  assumes "distinct (map (\<lambda>c. make_reqId (fst c)) calls)"
    and "length ms = length idx" and "distinct idx"
    and "\<forall>k<length ms. idx ! k < length calls \<and>
           reqId (ms ! k) = Some (make_reqId (fst (calls ! (idx ! k))))"
  shows "fst (issue calls init_bridge) = [0..<length calls] \<and>
         (\<forall>i<length calls.
            PENDING_REQUESTS (snd (issue calls init_bridge)) (make_reqId (fst (calls ! i))) = Some i) \<and>
         deliver ms (snd (issue calls init_bridge)) =
           ([], (snd (issue calls init_bridge))
                  \<lparr>PENDING_REQUESTS :=
                     PENDING_REQUESTS (snd (issue calls init_bridge))
                       |` (- (\<lambda>i. make_reqId (fst (calls ! i))) ` set idx),
                   settled := zip idx (map outcome ms)\<rparr>) \<and>
         (\<forall>ms'. distinct (map fst (settled (snd (deliver ms' (snd (issue calls init_bridge)))))))"
proof -
  let ?b = "snd (issue calls init_bridge)"
  let ?id = "\<lambda>i. make_reqId (fst (calls ! i))"
  let ?rs = "zip (map ?id idx) ms"
  have p0: "promises init_bridge = 0" and s0: "settled init_bridge = []"
    by (simp_all add: init_bridge_def)
  have ps: "fst (issue calls init_bridge) = [0..<length calls]"
    using issue_fields [OF assms(1), of init_bridge] p0 by simp
  have entry: "PENDING_REQUESTS ?b (?id i) = Some i" if "i < length calls" for i
    using issue_entry [OF assms(1) that, of init_bridge] p0 by simp
  have sb: "settled ?b = []"
    using issue_fields [OF assms(1), of init_bridge] s0 by simp
  have idx: "idx ! k < length calls" if "k < length idx" for k
    using assms(2,4) that by simp
  have inj: "inj_on ?id (set idx)"
  proof (rule inj_onI)
    fix i j assume i: "i \<in> set idx" and j: "j \<in> set idx" and e: "?id i = ?id j"
    from i j idx have "i < length calls" "j < length calls"
      by (auto simp: in_set_conv_nth)
    with e assms(1) show "i = j"
      using nth_eq_iff_index_eq [of "map (\<lambda>c. make_reqId (fst c)) calls" i j] by simp
  qed
  have d: "distinct (map fst ?rs)"
    using assms(2,3) inj by (simp add: distinct_map)
  have pend: "\<forall>(rid, m) \<in> set ?rs. rid \<noteq> [] \<and> reqId m = Some rid \<and> PENDING_REQUESTS ?b rid \<noteq> None"
  proof (clarify, intro conjI)
    fix rid m assume "(rid, m) \<in> set ?rs"
    then obtain k where k: "k < length ms" "rid = ?id (idx ! k)" "m = ms ! k"
      using assms(2) by (auto simp: in_set_zip)
    show "rid \<noteq> []" using k(2) make_reqId_nonempty by simp
    show "reqId m = Some rid" using k assms(4) by simp
    show "PENDING_REQUESTS ?b rid \<noteq> None"
      using entry [of "idx ! k"] idx [of k] k assms(2) by simp
  qed
  have log: "map (\<lambda>(rid, m). (the (PENDING_REQUESTS ?b rid),
                 if truthy (data m) then Resolve (data m) else Reject (err m))) ?rs
             = zip idx (map outcome ms)"
  proof (rule nth_equalityI)
    show "length (map (\<lambda>(rid, m). (the (PENDING_REQUESTS ?b rid),
                 if truthy (data m) then Resolve (data m) else Reject (err m))) ?rs)
          = length (zip idx (map outcome ms))"
      using assms(2) by simp
  next
    fix k assume "k < length (map (\<lambda>(rid, m). (the (PENDING_REQUESTS ?b rid),
                 if truthy (data m) then Resolve (data m) else Reject (err m))) ?rs)"
    then have k: "k < length ms" "k < length idx" using assms(2) by simp_all
    then show "map (\<lambda>(rid, m). (the (PENDING_REQUESTS ?b rid),
                 if truthy (data m) then Resolve (data m) else Reject (err m))) ?rs ! k
          = zip idx (map outcome ms) ! k"
      using entry [OF idx [OF k(2)]] by (simp add: outcome_def)
  qed
  have ms: "map snd ?rs = ms" and fs: "set (map fst ?rs) = ?id ` set idx"
    using assms(2) by simp_all
  have del: "deliver ms ?b =
           ([], ?b\<lparr>PENDING_REQUESTS := PENDING_REQUESTS ?b |` (- ?id ` set idx),
                   settled := zip idx (map outcome ms)\<rparr>)"
    using deliver_pending [OF d pend] unfolding ms fs log sb by simp
  have dl: "distinct (map fst (settled (snd (deliver ms' ?b))))" for ms'
    using assms(1) by (rule settled_once)
  show ?thesis using ps entry del dl by blast
qed

lemma ex_ids:
  "make_reqId (1, 2, 3, 4) = ''1-2-3-4''" "make_reqId (5, 6, 7, 8) = ''5-6-7-8''"
  by (simp_all add: make_reqId_def string_of_nat.simps digit_char_def)

theorem replies_settle_own_calls_witness:
  "deliver ex_replies (snd (issue ex_calls init_bridge)) =
     ([], (snd (issue ex_calls init_bridge))
            \<lparr>PENDING_REQUESTS := PENDING_REQUESTS (snd (issue ex_calls init_bridge)) |` (- {''5-6-7-8'', ''1-2-3-4''}),
             settled := [(1, Resolve (JObj [(''command'', JStr ''validatePort''), (''data'', JBool True)])),
                         (0, Reject (JStr ''failed''))]\<rparr>)"
proof -
  have h1: "distinct (map (\<lambda>c. make_reqId (fst c)) ex_calls)"
    by (simp add: ex_calls_def ex_ids)
  have h2: "length ex_replies = length [1, 0::nat]"
    by (simp add: ex_replies_def)
  have h3: "distinct [1, 0::nat]"
    by simp
  have h4: "\<forall>k<length ex_replies. [1, 0] ! k < length ex_calls \<and>
              reqId (ex_replies ! k) = Some (make_reqId (fst (ex_calls ! ([1, 0] ! k))))"
    by (simp add: ex_replies_def ex_calls_def ex_ids less_Suc_eq)
  show ?thesis
    using replies_settle_own_calls [OF h1 h2 h3 h4]
    by (simp add: ex_replies_def ex_calls_def ex_ids outcome_def insert_commute)
qed

lemma ex_bridge_eq:
  "ex_bridge = \<lparr>PENDING_REQUESTS = [''1-2-3-4'' \<mapsto> 0],
      posted = [\<lparr>reqId = Some ''1-2-3-4'', payload = ex_call, data = JUndefined, err = JUndefined\<rparr>],
      promises = 1, settled = []\<rparr>"
  by (simp add: ex_bridge_def vscodeFetch_def init_bridge_def make_reqId_def
      string_of_nat.simps digit_char_def post_def Let_def)

section \<open>The bridge: one reply\<close>

text \<open>
  Claim C10, as the listener has it. A reply whose request id is in the table (ids are
  never empty, see \<open>make_reqId_nonempty\<close>) has its entry removed and its promise
  settled once: resolved with \<open>data\<close> when \<open>data\<close> is truthy, rejected with
  \<open>err\<close> otherwise. The test is \<open>if (message.data)\<close>, so a \<open>data\<close> that is
  there but is \<open>false\<close>, \<open>0\<close>, the empty string or \<open>null\<close> rejects.
\<close>

theorem onMessage_settles_pending:
  assumes "reqId m = Some rid" and "rid \<noteq> []" and "PENDING_REQUESTS b rid = Some p"
  shows "onMessage m b =
           Inr (settle p (if truthy (data m) then Resolve (data m) else Reject (err m))
                  (b\<lparr>PENDING_REQUESTS := (PENDING_REQUESTS b)(rid := None)\<rparr>))"
  using assms by (simp add: onMessage_def)

theorem onMessage_settles_pending_witness:
  "onMessage (ex_reply (JObj [(''command'', JStr ''validatePort''), (''data'', JBool False)])) ex_bridge =
     Inr \<lparr>PENDING_REQUESTS = Map.empty,
          posted = [\<lparr>reqId = Some ''1-2-3-4'', payload = ex_call, data = JUndefined, err = JUndefined\<rparr>],
          promises = 1,
          settled = [(0, Resolve (JObj [(''command'', JStr ''validatePort''), (''data'', JBool False)]))]\<rparr>"
  using onMessage_settles_pending [of "ex_reply (JObj [(''command'', JStr ''validatePort''), (''data'', JBool False)])"
      "''1-2-3-4''" ex_bridge 0]
  by (simp add: ex_reply_def ex_bridge_eq settle_def)

text \<open>
  The reply to the call in flight carries \<open>data: false\<close>: the field is present, and the
  promise is rejected, with the \<open>err\<close> the reply does not have.
\<close>

theorem falsy_data_is_rejected:
  "data (ex_reply (JBool False)) = JBool False \<and>
   PENDING_REQUESTS ex_bridge ''1-2-3-4'' = Some 0 \<and>
   onMessage (ex_reply (JBool False)) ex_bridge =
     Inr \<lparr>PENDING_REQUESTS = Map.empty,
          posted = [\<lparr>reqId = Some ''1-2-3-4'', payload = ex_call, data = JUndefined, err = JUndefined\<rparr>],
          promises = 1,
          settled = [(0, Reject JUndefined)]\<rparr>"
  by (simp add: ex_reply_def ex_bridge_eq onMessage_def settle_def)

text \<open>
  Claim C2 at a reply whose request id is not in the table: the listener reads
  \<open>resolve\<close> of \<open>undefined\<close> and throws. The table is as before and nothing is
  settled, but the run is not silent.
\<close>

theorem unknown_reqId_throws:
  "PENDING_REQUESTS init_bridge ''1-2-3-4'' = None \<and>
   onMessage (ex_reply (JObj [(''command'', JStr ''validatePort''), (''data'', JBool True)])) init_bridge =
     Inl (TypeError, init_bridge)"
  by (simp add: ex_reply_def init_bridge_def onMessage_def)

section \<open>The store: local transitions\<close>

lemma count_fold:
  "fold (\<lambda>header n. if key header = K then n + 1 else n) hs (m::nat) =
     m + length (filter (\<lambda>h. key h = K) hs)"
  by (induction hs arbitrary: m) auto

text \<open>
  Claim C5. \<open>setDataState(body)\<close> stores the body and, in the same transition, puts
  one \<open>{key: "Content-Type", value: "application/json"}\<close> in front of the header
  list when the body is not empty and no header has the key \<open>Content-Type\<close>; in every
  other case, so when such a header exists, the header list is the one it was.
\<close>

theorem setDataState_content_type:
  "dataState (inputs (setDataState body s)) = body \<and>
   headers (headerState (inputs (setDataState body s))) =
     (if body \<noteq> [] \<and> (\<forall>h\<in>set (headers (headerState (inputs s))). key h \<noteq> ''Content-Type'')
      then \<lparr>key = ''Content-Type'', val = ''application/json''\<rparr> # headers (headerState (inputs s))
      else headers (headerState (inputs s)))"
  by (auto simp: setDataState_def Let_def count_fold filter_empty_conv)

theorem setDataState_content_type_witness:
  "headers (headerState (inputs (setDataState ''{}'' initialState))) =
     [\<lparr>key = ''Content-Type'', val = ''application/json''\<rparr>] \<and>
   headers (headerState (inputs (setDataState ''{}'' (setDataState ''{}'' initialState)))) =
     [\<lparr>key = ''Content-Type'', val = ''application/json''\<rparr>] \<and>
   headers (headerState (inputs (setDataState ''{}'' ex_state))) =
     [\<lparr>key = ''Content-Type'', val = ''application/json''\<rparr>, \<lparr>key = ''Accept'', val = ''text/plain''\<rparr>]"
  using setDataState_content_type [of "''{}''" initialState]
    setDataState_content_type [of "''{}''" "setDataState ''{}'' initialState"]
    setDataState_content_type [of "''{}''" ex_state]
  by (simp add: initialState_def ex_state_def)

text \<open>
  Claim C6. \<open>setUrlState\<close> with a payload that is not \<open>default\<close> and parses to an
  object installs that object as the url and leaves the headers, the cookies, the body and
  the path parameters empty and the preset \<open>default\<close>, whatever they were; the method
  and the rest of the store are kept, and one \<open>openFileInEditor\<close> message is posted.
\<close>

theorem setUrlState_resets:
  assumes "pl \<noteq> ''default''" and "JSON_parse pl = Some (JObj fs)"
  shows "setUrlState JSON_parse pl s =
           Inr (s\<lparr>inputs :=
                   \<lparr>urlState = JObj fs, presetState = JStr ''default'',
                    methodState = methodState (inputs s),
                    headerState = \<lparr>headers = []\<rparr>, cookieState = \<lparr>cookies = []\<rparr>,
                    dataState = [], paramState = []\<rparr>\<rparr>,
                [\<lparr>reqId = None,
                  payload = JObj [(''command'', JStr ''openFileInEditor''),
                                  (''data'', case map_of fs ''filePath'' of None \<Rightarrow> JUndefined | Some v \<Rightarrow> v)],
                  data = JUndefined, err = JUndefined\<rparr>])"
  using assms by (simp add: setUrlState_def resetInputs_def Let_def)

theorem setUrlState_resets_witness:
  "setUrlState ex_parse ex_url_json ex_state =
     Inr (ex_state\<lparr>inputs :=
             \<lparr>urlState = ex_url, presetState = JStr ''default'', methodState = ''POST'',
              headerState = \<lparr>headers = []\<rparr>, cookieState = \<lparr>cookies = []\<rparr>,
              dataState = [], paramState = []\<rparr>\<rparr>,
          [\<lparr>reqId = None,
            payload = JObj [(''command'', JStr ''openFileInEditor''), (''data'', JStr ''/srv/app.js'')],
            data = JUndefined, err = JUndefined\<rparr>])"
proof -
  have h1: "ex_url_json \<noteq> ''default''" by (simp add: ex_url_json_def)
  have h2: "ex_parse ex_url_json = Some (JObj [(''filePath'', JStr ''/srv/app.js''),
                  (''href'', JStr ''http://localhost:3000/users/:id''),
                  (''pathname'', JStr ''/users/:id''),
                  (''presets'', JObj [(''p1'', ex_preset)])])"
    by (simp add: ex_parse_def ex_url_def)
  show ?thesis
    using setUrlState_resets [where JSON_parse = ex_parse and pl = ex_url_json and s = ex_state, OF h1 h2]
    by (simp add: ex_state_def ex_url_def)
qed

section \<open>The store: completion reducers\<close>

text \<open>
  Claim C8. The payload of the completed \<open>getMasterObject\<close> is \<open>{command, data: d}\<close>
  with \<open>d\<close> the result. When reading \<open>d.domains\<close> gives \<open>undefined\<close> (the result
  lacks the field), the cached master object, an object, gets \<open>d.serverPaths\<close> and
  \<open>d.rootDirectory\<close> written into it, its other properties stay, and nothing else in
  the store changes, \<open>loading\<close> included. Otherwise the master object is \<open>d\<close> and
  \<open>loading\<close> is false.
\<close>

theorem getMasterObject_fulfilled_cases:
  assumes "get_prop pl ''data'' = Inr d" and "get_prop d ''domains'' = Inr domains"
  shows "(domains = JUndefined \<and> masterObject s = JObj fs \<longrightarrow>
            (\<exists>sp rd. get_prop d ''serverPaths'' = Inr sp \<and> get_prop d ''rootDirectory'' = Inr rd \<and>
               getMasterObject_fulfilled pl s =
                 Some (Inr (s\<lparr>masterObject :=
                   JObj (AList.update ''rootDirectory'' rd (AList.update ''serverPaths'' sp fs))\<rparr>)) \<and>
               (\<forall>k. k \<noteq> ''serverPaths'' \<and> k \<noteq> ''rootDirectory'' \<longrightarrow>
                  map_of (AList.update ''rootDirectory'' rd (AList.update ''serverPaths'' sp fs)) k = map_of fs k))) \<and>
         (domains \<noteq> JUndefined \<longrightarrow>
            getMasterObject_fulfilled pl s = Some (Inr (s\<lparr>masterObject := d, loading := False\<rparr>)))"
proof -
  from assms(2) obtain sp rd where
    sp: "get_prop d ''serverPaths'' = Inr sp" and rd: "get_prop d ''rootDirectory'' = Inr rd"
    by (cases d) auto
  show ?thesis
    using assms sp rd
    by (auto simp: getMasterObject_fulfilled_def update_conv')
qed

theorem getMasterObject_fulfilled_cases_witness:
  "getMasterObject_fulfilled ex_partial initialState =
     Some (Inr (initialState\<lparr>masterObject :=
        JObj [(''domains'', JObj []), (''serverPaths'', JArr [JStr ''/x'']),
              (''rootDirectory'', JStr ''/root'')]\<rparr>)) \<and>
   loading initialState \<and>
   getMasterObject_fulfilled ex_full initialState =
     Some (Inr (initialState\<lparr>masterObject :=
        JObj [(''domains'', JObj []), (''serverPaths'', JArr [JStr ''/x'']),
              (''rootDirectory'', JStr ''/root'')], loading := False\<rparr>))"
proof -
  have p1: "get_prop ex_partial ''data'' =
      Inr (JObj [(''serverPaths'', JArr [JStr ''/x'']), (''rootDirectory'', JStr ''/root'')])"
    by (simp add: ex_partial_def)
  have p2: "get_prop (JObj [(''serverPaths'', JArr [JStr ''/x'']), (''rootDirectory'', JStr ''/root'')])
      ''domains'' = Inr JUndefined"
    by simp
  have f1: "get_prop ex_full ''data'' =
      Inr (JObj [(''domains'', JObj []), (''serverPaths'', JArr [JStr ''/x'']),
                 (''rootDirectory'', JStr ''/root'')])"
    by (simp add: ex_full_def)
  have f2: "get_prop (JObj [(''domains'', JObj []), (''serverPaths'', JArr [JStr ''/x'']),
                 (''rootDirectory'', JStr ''/root'')]) ''domains'' = Inr (JObj [])"
    by simp
  show ?thesis
    using getMasterObject_fulfilled_cases [OF p1 p2, of initialState
        "[(''domains'', JObj []), (''serverPaths'', JArr []), (''rootDirectory'', JStr [])]"]
      getMasterObject_fulfilled_cases [OF f1 f2, of initialState "[]"]
    by (simp add: initialState_def)
qed




section \<open>The router\<close>

text \<open>
  Claim C3, as the router has it. For each of the seven commands that are answered: when
  the operation is fulfilled with \<open>e\<close> and the panel is there, exactly one reply goes
  back, with the request id of the message and the data \<open>{command, data: e}\<close>. For
  \<open>savePreset\<close> the data is \<open>{command, data: e.data, preset: e.preset}\<close> when
  \<open>e\<close> is neither \<open>undefined\<close> nor \<open>null\<close>; when it is, reading \<open>e.data\<close>
  throws in the callback and nothing is sent. When the operation is rejected nothing is
  sent: \<open>then\<close> has no second callback. Nothing is sent either when the panel is gone.
\<close>

theorem router_replies:
  assumes "c \<in> set correlated" and "get_prop (payload msg) ''command'' = Inr (JStr c)"
  shows "(c \<noteq> ''savePreset'' \<longrightarrow>
            sent (onDidReceiveMessage (Fulfilled e) True msg) =
              [\<lparr>reqId = reqId msg, payload = JUndefined,
                data = JObj [(''command'', JStr c), (''data'', e)], err = JUndefined\<rparr>]) \<and>
         (c = ''savePreset'' \<and> e \<noteq> JUndefined \<and> e \<noteq> JNull \<longrightarrow>
            (\<exists>d p. get_prop e ''data'' = Inr d \<and> get_prop e ''preset'' = Inr p \<and>
               sent (onDidReceiveMessage (Fulfilled e) True msg) =
                 [\<lparr>reqId = reqId msg, payload = JUndefined,
                   data = JObj [(''command'', JStr ''savePreset''), (''data'', d), (''preset'', p)],
                   err = JUndefined\<rparr>])) \<and>
         (c = ''savePreset'' \<and> (e = JUndefined \<or> e = JNull) \<longrightarrow>
            sent (onDidReceiveMessage (Fulfilled e) True msg) = [] \<and>
            thrown (onDidReceiveMessage (Fulfilled e) True msg) = Some TypeError) \<and>
         sent (onDidReceiveMessage (Rejected x) currentPanel msg) = [] \<and>
         sent (onDidReceiveMessage r False msg) = []"
proof -
  from assms(2) obtain a where a: "get_prop (payload msg) ''data'' = Inr a"
    by (cases "payload msg") auto
  have sp: "\<exists>d p. get_prop e ''data'' = Inr d \<and> get_prop e ''preset'' = Inr p"
    if "e \<noteq> JUndefined" "e \<noteq> JNull"
    using that by (cases e) auto
  from assms(1) have "c = ''dataObjects'' \<or> c = ''parseServer'' \<or> c = ''deletePreset'' \<or>
      c = ''wipeStorageObject'' \<or> c = ''savePreset'' \<or> c = ''validatePort'' \<or> c = ''makeRequest''"
    by (simp add: correlated_def)
  then show ?thesis
    using assms(2) a sp
    by (elim disjE)
      (auto simp: onDidReceiveMessage_def then_send_def plain_reply_def savePreset_reply_def
        reply_def split: op_result.split)
qed

theorem router_replies_witness:
  "sent (onDidReceiveMessage (Fulfilled (JBool True)) True (ex_msg ''validatePort'')) =
     [\<lparr>reqId = Some ''1-2-3-4'', payload = JUndefined,
       data = JObj [(''command'', JStr ''validatePort''), (''data'', JBool True)], err = JUndefined\<rparr>] \<and>
   sent (onDidReceiveMessage
          (Fulfilled (JObj [(''data'', JObj []), (''preset'', ex_preset)])) True (ex_msg ''savePreset'')) =
     [\<lparr>reqId = Some ''1-2-3-4'', payload = JUndefined,
       data = JObj [(''command'', JStr ''savePreset''), (''data'', JObj []), (''preset'', ex_preset)],
       err = JUndefined\<rparr>] \<and>
   sent (onDidReceiveMessage (Fulfilled JUndefined) True (ex_msg ''savePreset'')) = [] \<and>
   thrown (onDidReceiveMessage (Fulfilled JUndefined) True (ex_msg ''savePreset'')) = Some TypeError"
proof -
  have h1: "''validatePort'' \<in> set correlated" and h2: "''savePreset'' \<in> set correlated"
    by (simp_all add: correlated_def)
  have g1: "get_prop (payload (ex_msg ''validatePort'')) ''command'' = Inr (JStr ''validatePort'')"
    and g2: "get_prop (payload (ex_msg ''savePreset'')) ''command'' = Inr (JStr ''savePreset'')"
    by (simp_all add: ex_msg_def)
  show ?thesis
    using router_replies [OF h1 g1, of "JBool True"]
      router_replies [OF h2 g2, of "JObj [(''data'', JObj []), (''preset'', ex_preset)]"]
      router_replies [OF h2 g2, of JUndefined]
    by (simp add: ex_msg_def)
qed

text \<open>\<open>parseServer\<close> fails: the command was executed and no envelope is sent.\<close>

theorem failed_operation_gets_no_reply:
  "onDidReceiveMessage (Rejected (JStr ''ENOENT'')) True (ex_msg ''parseServer'') =
     \<lparr>executed = Some (''extension.parseServer'', [JStr ''arg'']), sent = [], thrown = None\<rparr>"
  by (simp add: onDidReceiveMessage_def then_send_def ex_msg_def)

section \<open>The makeRequest thunk\<close>

lemma substitute_frozen:
  "substitute kvs url = (if \<exists>kv\<in>set kvs. snd kv \<noteq> [] then Inl TypeError else Inr url)"
proof (induction kvs)
  case Nil
  then show ?case by simp
next
  case (Cons kv kvs)
  obtain k v where kv: "kv = (k, v)" by (cases kv)
  show ?case
  proof (cases "v = []")
    case True
    then show ?thesis using Cons.IH kv by simp
  next
    case False
    have "substitute ((k, v) # kvs) url = Inl TypeError"
    proof (cases "get_prop url ''pathname''")
      case (Inl e)
      then have "e = TypeError" by (cases url) auto
      with Inl False show ?thesis by simp
    next
      case (Inr x)
      with False show ?thesis by (cases x) (simp_all add: frozen_write_def)
    qed
    then show ?thesis using False kv by simp
  qed
qed

lemma makeRequest_eq:
  "makeRequest s =
     (if urlState (inputs s) = JStr ''default'' then Returned JUndefined (s\<lparr>waiting := False\<rparr>)
      else if \<exists>kv\<in>set (paramState (inputs s)). snd kv \<noteq> [] then Threw TypeError (s\<lparr>waiting := True\<rparr>)
      else
        (case get_prop (urlState (inputs s)) ''href'' of
           Inl e \<Rightarrow> Threw e (s\<lparr>waiting := True\<rparr>)
         | Inr href \<Rightarrow>
             Awaiting
               (JObj [(''command'', JStr ''makeRequest''),
                      (''data'', JObj [(''headers'', request_headers (cookies (cookieState (inputs s)))
                                                        (headers (headerState (inputs s)))),
                                       (''baseURL'', href),
                                       (''method'', JStr (methodState (inputs s))),
                                       (''data'', JStr (dataState (inputs s)))])])
               (s\<lparr>waiting := True\<rparr>)))"
  by (simp add: makeRequest_def substitute_frozen setWaiting_def Let_def split: sum.splits)

lemma spread_map_of:
  "distinct (map fst src) \<Longrightarrow>
   map_of (spread src obj) k = (case map_of src k of None \<Rightarrow> map_of obj k | Some v \<Rightarrow> Some v)"
  unfolding spread_def
proof (induction src arbitrary: obj)
  case Nil
  then show ?case by simp
next
  case (Cons x src)
  obtain k' v' where x: "x = (k', v')" by (cases x)
  from Cons.prems x have d: "distinct (map fst src)" and nk: "k' \<notin> fst ` set src"
    by auto
  have none: "map_of src k' = None"
    using nk by (simp add: map_of_eq_None_iff)
  show ?case
    using Cons.IH [OF d, of "AList.update k' v' obj"] none
    by (auto simp: x update_conv' split: option.splits)
qed

lemma fold_add_header_distinct:
  "distinct (map fst acc) \<Longrightarrow> distinct (map fst (fold add_header hs acc))"
  by (induction hs arbitrary: acc) (simp_all add: add_header_def distinct_update)

lemma fold_add_header_cookie:
  "map_of (fold add_header hs acc) ''cookie'' =
     (if filter (\<lambda>h. key h = ''cookie'' \<and> val h \<noteq> []) hs = [] then map_of acc ''cookie''
      else Some (JStr (val (last (filter (\<lambda>h. key h = ''cookie'' \<and> val h \<noteq> []) hs)))))"
proof (induction hs arbitrary: acc)
  case Nil
  then show ?case by simp
next
  case (Cons h hs)
  show ?case
    unfolding fold_simps Cons.IH
    by (auto simp: add_header_def update_conv')
qed

lemma request_headers_cookie:
  "\<exists>fs. request_headers cs hs = JObj fs \<and>
         map_of fs ''cookie'' =
           (if filter (\<lambda>h. key h = ''cookie'' \<and> val h \<noteq> []) hs \<noteq> []
            then Some (JStr (val (last (filter (\<lambda>h. key h = ''cookie'' \<and> val h \<noteq> []) hs))))
            else if filter (\<lambda>c. key c \<noteq> [] \<and> val c \<noteq> []) cs = [] then None
            else Some (JArr (map (\<lambda>c. JStr (key c @ '' = '' @ val c))
                               (filter (\<lambda>c. key c \<noteq> [] \<and> val c \<noteq> []) cs))))"
proof -
  have ca: "cookiesArray cs = map (\<lambda>c. key c @ '' = '' @ val c) (filter (\<lambda>c. key c \<noteq> [] \<and> val c \<noteq> []) cs)"
  proof -
    have "(\<lambda>el. if key el \<in> set [[]] \<or> val el \<in> set [[]] then False else True)
        = (\<lambda>c. key c \<noteq> [] \<and> val c \<noteq> [])"
      by (auto simp: fun_eq_iff)
    then show ?thesis by (simp add: cookiesArray_def)
  qed
  have d: "distinct (map fst (headersObject hs))"
    unfolding headersObject_def by (rule fold_add_header_distinct) simp
  have hc: "map_of (headersObject hs) ''cookie'' =
     (if filter (\<lambda>h. key h = ''cookie'' \<and> val h \<noteq> []) hs = [] then None
      else Some (JStr (val (last (filter (\<lambda>h. key h = ''cookie'' \<and> val h \<noteq> []) hs)))))"
    unfolding headersObject_def fold_add_header_cookie by simp
  show ?thesis
    by (simp add: request_headers_def Let_def ca spread_map_of [OF d] hc comp_def)
qed

text \<open>
  Claim C9, as the builder has it. In the descriptor that \<open>makeRequest\<close> passes to the
  bridge, the \<open>cookie\<close> property of \<open>headers\<close> is: the value of the last header named
  \<open>cookie\<close> with a non-empty value, when there is one (the headers are spread after
  the cookie list and overwrite it); otherwise the list of the cookies whose key and value
  are both non-empty, each as \<open>key = value\<close>, in input order with duplicates; and
  there is no \<open>cookie\<close> property when that list is empty.
\<close>

theorem request_cookie:
  assumes "makeRequest s = Awaiting call t"
  shows "descriptor_cookie (makeRequest s) =
           Some (if filter (\<lambda>h. key h = ''cookie'' \<and> val h \<noteq> []) (headers (headerState (inputs s))) \<noteq> []
                 then Some (JStr (val (last (filter (\<lambda>h. key h = ''cookie'' \<and> val h \<noteq> [])
                                               (headers (headerState (inputs s)))))))
                 else if filter (\<lambda>c. key c \<noteq> [] \<and> val c \<noteq> []) (cookies (cookieState (inputs s))) = []
                 then None
                 else Some (JArr (map (\<lambda>c. JStr (key c @ '' = '' @ val c))
                                    (filter (\<lambda>c. key c \<noteq> [] \<and> val c \<noteq> [])
                                       (cookies (cookieState (inputs s)))))))"
proof -
  obtain fs where fs: "request_headers (cookies (cookieState (inputs s))) (headers (headerState (inputs s))) = JObj fs"
    and ck: "map_of fs ''cookie'' =
           (if filter (\<lambda>h. key h = ''cookie'' \<and> val h \<noteq> []) (headers (headerState (inputs s))) \<noteq> []
            then Some (JStr (val (last (filter (\<lambda>h. key h = ''cookie'' \<and> val h \<noteq> [])
                                          (headers (headerState (inputs s)))))))
            else if filter (\<lambda>c. key c \<noteq> [] \<and> val c \<noteq> []) (cookies (cookieState (inputs s))) = [] then None
            else Some (JArr (map (\<lambda>c. JStr (key c @ '' = '' @ val c))
                               (filter (\<lambda>c. key c \<noteq> [] \<and> val c \<noteq> [])
                                  (cookies (cookieState (inputs s)))))))"
    using request_headers_cookie by blast
  from assms obtain href where
    "makeRequest s = Awaiting
       (JObj [(''command'', JStr ''makeRequest''),
              (''data'', JObj [(''headers'', JObj fs), (''baseURL'', href),
                               (''method'', JStr (methodState (inputs s))),
                               (''data'', JStr (dataState (inputs s)))])])
       (s\<lparr>waiting := True\<rparr>)"
    unfolding makeRequest_eq fs by (auto split: if_splits sum.splits)
  then have "descriptor_cookie (makeRequest s) = Some (map_of fs ''cookie'')"
    by (simp add: descriptor_cookie_def)
  then show ?thesis unfolding ck .
qed

lemma ex_makeRequest:
  "makeRequest ex_state =
     Awaiting
       (JObj [(''command'', JStr ''makeRequest''),
              (''data'', JObj [(''headers'', JObj [(''cookie'', JArr [JStr ''a = b'']),
                                                   (''Accept'', JStr ''text/plain'')]),
                               (''baseURL'', JStr ''http://localhost:3000/users/:id''),
                               (''method'', JStr ''POST''),
                               (''data'', JStr ''{}'')])])
       (ex_state\<lparr>waiting := True\<rparr>)"
  by (simp add: makeRequest_def ex_state_def ex_url_def setWaiting_def Let_def
      request_headers_def cookiesArray_def headersObject_def add_header_def spread_def)

theorem request_cookie_witness:
  "descriptor_cookie (makeRequest ex_state) = Some (Some (JArr [JStr ''a = b''])) \<and>
   descriptor_cookie (makeRequest ex_cookie_state) = Some (Some (JStr ''x''))"
proof -
  have c: "makeRequest ex_cookie_state =
     Awaiting
       (JObj [(''command'', JStr ''makeRequest''),
              (''data'', JObj [(''headers'', JObj [(''cookie'', JStr ''x'')]),
                               (''baseURL'', JStr ''http://localhost:3000/users/:id''),
                               (''method'', JStr ''POST''),
                               (''data'', JStr ''{}'')])])
       (ex_cookie_state\<lparr>waiting := True\<rparr>)"
    by (simp add: makeRequest_def ex_cookie_state_def ex_state_def ex_url_def setWaiting_def Let_def
      request_headers_def cookiesArray_def headersObject_def add_header_def spread_def)
  show ?thesis
    using request_cookie [OF ex_makeRequest] request_cookie [OF c]
    by (simp add: ex_state_def ex_cookie_state_def)
qed

text \<open>
  One cookie \<open>a = b\<close> and one header named \<open>cookie\<close>: the descriptor's
  \<open>cookie\<close> is the header's value, and the cookie list is not in it.
\<close>

theorem cookie_header_takes_cookie:
  "makeRequest ex_cookie_state =
     Awaiting
       (JObj [(''command'', JStr ''makeRequest''),
              (''data'', JObj [(''headers'', JObj [(''cookie'', JStr ''x'')]),
                               (''baseURL'', JStr ''http://localhost:3000/users/:id''),
                               (''method'', JStr ''POST''),
                               (''data'', JStr ''{}'')])])
       (ex_cookie_state\<lparr>waiting := True\<rparr>)"
  by (simp add: makeRequest_def ex_cookie_state_def ex_state_def ex_url_def setWaiting_def Let_def
      request_headers_def cookiesArray_def headersObject_def add_header_def spread_def)




end
